theory Spec2Isabelle
  imports Complex_Main "HOL-Library.Sublist" "HOL-Library.List_Lexorder"
begin

section \<open>Strings\<close>

text \<open>
  JavaScript strings are modelled as \<open>string\<close> (lists of 8-bit characters). Only ASCII
  text occurs in the URLs that the model of the platform's URL class accepts.
\<close>

definition split_first :: "char \<Rightarrow> string \<Rightarrow> string \<times> string option" where
  \<comment> \<open>The text before the first occurrence of \<open>c\<close>, and the text after it when there is one.\<close>
  "split_first c s =
     (takeWhile (\<lambda>x. x \<noteq> c) s,
      case dropWhile (\<lambda>x. x \<noteq> c) s of [] \<Rightarrow> None | _ # r \<Rightarrow> Some r)"

fun split_on :: "char \<Rightarrow> string \<Rightarrow> string list" where
  \<comment> \<open>\<^verbatim>\<open>s.split(c)\<close> for a one-character separator.\<close>
  "split_on c [] = [[]]"
| "split_on c (x # xs) =
     (if x = c then [] # split_on c xs
      else (case split_on c xs of [] \<Rightarrow> [[x]] | s # ss \<Rightarrow> (x # s) # ss))"

definition endsWith :: "string \<Rightarrow> string \<Rightarrow> bool" where
  "endsWith s t = suffix t s"

fun str_includes :: "string \<Rightarrow> string \<Rightarrow> bool" where
  \<comment> \<open>\<^verbatim>\<open>s.includes(t)\<close>\<close>
  "str_includes [] t = (t = [])"
| "str_includes (c # cs) t = (prefix t (c # cs) \<or> str_includes cs t)"

definition ascii_upper :: string where
  "ascii_upper = ''ABCDEFGHIJKLMNOPQRSTUVWXYZ''"

definition ascii_lower :: string where
  "ascii_lower = ''abcdefghijklmnopqrstuvwxyz''"

definition ascii_digits :: string where
  "ascii_digits = ''0123456789''"

definition toLowerCase :: "string \<Rightarrow> string" where
  \<comment> \<open>\<^verbatim>\<open>s.toLowerCase()\<close> on ASCII text.\<close>
  "toLowerCase s =
     map (\<lambda>c. case map_of (zip ascii_upper ascii_lower) c of Some l \<Rightarrow> l | None \<Rightarrow> c) s"

section \<open>The platform's URL class\<close>

text \<open>
  \<^verbatim>\<open>new URL(raw)\<close>, the component getters and setters and \<^verbatim>\<open>toString()\<close> belong to the
  JavaScript platform (the WHATWG URL standard), not to the repository. They are modelled
  for the \<^verbatim>\<open>http\<close> and \<^verbatim>\<open>https\<close> URLs that the standard's parser accepts \<^emph>\<open>without rewriting
  them\<close>: \<^verbatim>\<open>scheme://host[:port][/path][?query][#fragment]\<close> with a lower-case scheme and
  host, no credentials, no character that the parser would percent-encode or strip, no
  dot segment in the path, and a host that is neither an IP address (other than
  \<^verbatim>\<open>127.0.0.1\<close>, which the repository names) nor an internationalised name. On these strings the
  parser of the standard splits the input exactly as \<open>new_URL\<close> below does; the only
  rewriting kept is that of a missing path to \<^verbatim>\<open>/\<close> and of an empty or default port to no
  port. Every other string is reported as unparseable by the model.
\<close>

record url =
  protocol :: string          \<comment> \<open>\<^verbatim>\<open>http:\<close> or \<^verbatim>\<open>https:\<close>\<close>
  hostname :: string
  port :: string              \<comment> \<open>empty when the URL has no port\<close>
  pathname :: string
  query :: "string option"    \<comment> \<open>without the leading \<^verbatim>\<open>?\<close>; \<open>None\<close> is the standard's null\<close>
  fragment :: "string option" \<comment> \<open>without the leading \<^verbatim>\<open>#\<close>\<close>

definition host_label_chars :: string where
  "host_label_chars = ascii_lower @ ascii_digits @ ''-''"

definition host_label_ok :: "string \<Rightarrow> bool" where
  "host_label_ok l = (l \<noteq> [] \<and> list_all (\<lambda>c. c \<in> set host_label_chars) l \<and> \<not> prefix ''xn--'' l)"

definition valid_hostname :: "string \<Rightarrow> bool" where
  "valid_hostname h =
     (h = ''127.0.0.1'' \<or>
      (list_all host_label_ok (split_on CHR ''.'' h) \<and>
       hd (last (split_on CHR ''.'' h)) \<in> set ascii_lower))"

definition digits_value :: "string \<Rightarrow> nat" where
  "digits_value ds = foldl (\<lambda>n c. 10 * n + (of_char c - 48)) 0 ds"

definition valid_port_digits :: "string \<Rightarrow> bool" where
  \<comment> \<open>a port as the standard serialises it: decimal, no leading zero, at most 65535\<close>
  "valid_port_digits ds =
     (ds \<noteq> [] \<and> list_all (\<lambda>c. c \<in> set ascii_digits) ds \<and> (ds = ''0'' \<or> hd ds \<noteq> CHR ''0'') \<and>
      length ds \<le> 5 \<and> digits_value ds \<le> 65535)"

definition default_port :: "string \<Rightarrow> string" where
  "default_port proto = (if proto = ''http:'' then ''80'' else ''443'')"

definition path_chars :: string where
  "path_chars = ascii_lower @ ascii_upper @ ascii_digits @ ''-._~!$&()*+,;=:@/%'' @ [CHR 0x27]"

definition query_chars :: string where
  "query_chars = ascii_lower @ ascii_upper @ ascii_digits @ ''-._~!$&()*+,;=:@/%?''"

definition fragment_chars :: string where
  "fragment_chars = ascii_lower @ ascii_upper @ ascii_digits @ ''-._~!$&()*+,;=:@/%?#'' @ [CHR 0x27]"

definition dot_segments :: "string list" where
  \<comment> \<open>the path segments that the standard's parser removes or resolves\<close>
  "dot_segments =
     [''.'', ''..'', ''%2e'', ''%2E'', ''.%2e'', ''.%2E'', ''%2e.'', ''%2E.'',
      ''%2e%2e'', ''%2e%2E'', ''%2E%2e'', ''%2E%2E'']"

definition valid_path :: "string \<Rightarrow> bool" where
  "valid_path p =
     (p \<noteq> [] \<and> hd p = CHR ''/'' \<and> list_all (\<lambda>c. c \<in> set path_chars) p \<and>
      list_all (\<lambda>s. s \<notin> set dot_segments) (split_on CHR ''/'' p))"

definition valid_query :: "string option \<Rightarrow> bool" where
  "valid_query q = (case q of None \<Rightarrow> True | Some s \<Rightarrow> list_all (\<lambda>c. c \<in> set query_chars) s)"

definition valid_fragment :: "string option \<Rightarrow> bool" where
  "valid_fragment f = (case f of None \<Rightarrow> True | Some s \<Rightarrow> list_all (\<lambda>c. c \<in> set fragment_chars) s)"

definition strip_scheme :: "string \<Rightarrow> (string \<times> string) option" where
  "strip_scheme s =
     (if prefix ''http://'' s then Some (''http:'', drop 7 s)
      else if prefix ''https://'' s then Some (''https:'', drop 8 s)
      else None)"

definition parse_port :: "string \<Rightarrow> string option \<Rightarrow> string option" where
  "parse_port proto p =
     (case p of None \<Rightarrow> Some []
      | Some ds \<Rightarrow>
          if ds = [] then Some []
          else if valid_port_digits ds then Some (if ds = default_port proto then [] else ds)
          else None)"

definition new_URL :: "string \<Rightarrow> url option" where
  \<comment> \<open>\<^verbatim>\<open>new URL(raw)\<close>; \<open>None\<close> when it throws.\<close>
  "new_URL raw =
     (case split_first CHR ''#'' raw of (s1, frag) \<Rightarrow>
      case split_first CHR ''?'' s1 of (s2, qry) \<Rightarrow>
      case strip_scheme s2 of None \<Rightarrow> None
      | Some (proto, rest) \<Rightarrow>
          (case split_first CHR ''/'' rest of (auth, path) \<Rightarrow>
           case split_first CHR '':'' auth of (h, p) \<Rightarrow>
           case parse_port proto p of None \<Rightarrow> None
           | Some prt \<Rightarrow>
               let pth = (case path of None \<Rightarrow> ''/'' | Some r \<Rightarrow> CHR ''/'' # r) in
               if valid_hostname h \<and> valid_path pth \<and> valid_query qry \<and> valid_fragment frag
               then Some \<lparr>protocol = proto, hostname = h, port = prt, pathname = pth,
                          query = qry, fragment = frag\<rparr>
               else None))"

definition host :: "url \<Rightarrow> string" where
  \<comment> \<open>the \<^verbatim>\<open>host\<close> getter: hostname, and the port when there is one\<close>
  "host u = hostname u @ (if port u = [] then [] else CHR '':'' # port u)"

definition toString :: "url \<Rightarrow> string" where
  \<comment> \<open>\<^verbatim>\<open>url.toString()\<close>, the standard's serialiser\<close>
  "toString u =
     protocol u @ ''//'' @ host u @ pathname u @
     (case query u of None \<Rightarrow> [] | Some q \<Rightarrow> CHR ''?'' # q) @
     (case fragment u of None \<Rightarrow> [] | Some f \<Rightarrow> CHR ''#'' # f)"

definition set_hash :: "url \<Rightarrow> string \<Rightarrow> url" where
  \<comment> \<open>\<^verbatim>\<open>url.hash = v\<close>: the empty string removes the fragment\<close>
  "set_hash u v =
     (if v = [] then u\<lparr>fragment := None\<rparr>
      else u\<lparr>fragment := Some (if hd v = CHR ''#'' then tl v else v)\<rparr>)"

definition set_search :: "url \<Rightarrow> string \<Rightarrow> url" where
  \<comment> \<open>\<^verbatim>\<open>url.search = v\<close>: the empty string removes the query\<close>
  "set_search u v =
     (if v = [] then u\<lparr>query := None\<rparr>
      else u\<lparr>query := Some (if hd v = CHR ''?'' then tl v else v)\<rparr>)"

definition set_pathname :: "url \<Rightarrow> string \<Rightarrow> url" where
  \<comment> \<open>\<^verbatim>\<open>url.pathname = v\<close>, for a value that is already a path of the modelled form\<close>
  "set_pathname u v = u\<lparr>pathname := v\<rparr>"

subsection \<open>URLSearchParams\<close>

definition urlencoded_safe :: string where
  \<comment> \<open>the bytes that the application/x-www-form-urlencoded serialiser leaves as they are\<close>
  "urlencoded_safe = ascii_lower @ ascii_upper @ ascii_digits @ ''*-._''"

definition hex_digit :: "nat \<Rightarrow> char" where
  "hex_digit n = ''0123456789ABCDEF'' ! n"

definition hex_value :: "char \<Rightarrow> nat option" where
  "hex_value c =
     map_of (zip ''0123456789abcdefABCDEF''
       [0, 1, 2, 3, 4, 5, 6, 7, 8, 9, 10, 11, 12, 13, 14, 15, 10, 11, 12, 13, 14, 15]) c"

fun percent_decode :: "string \<Rightarrow> string" where
  \<comment> \<open>percent-decoding of bytes; the UTF-8 decoding that follows it in the standard is the
      identity on well-formed text and is not modelled\<close>
  "percent_decode (c # h1 # h2 # rest) =
     (if c = CHR ''%'' then
        (case (hex_value h1, hex_value h2) of
           (Some a, Some b) \<Rightarrow> char_of (16 * a + b) # percent_decode rest
         | _ \<Rightarrow> c # percent_decode (h1 # h2 # rest))
      else c # percent_decode (h1 # h2 # rest))"
| "percent_decode (c # cs) = c # percent_decode cs"
| "percent_decode [] = []"

definition plus_to_space :: "string \<Rightarrow> string" where
  "plus_to_space s = map (\<lambda>c. if c = CHR ''+'' then CHR '' '' else c) s"

definition parse_pair :: "string \<Rightarrow> string \<times> string" where
  "parse_pair s =
     (case split_first CHR ''='' s of
        (n, v) \<Rightarrow> (percent_decode (plus_to_space n),
                   percent_decode (plus_to_space (case v of None \<Rightarrow> [] | Some w \<Rightarrow> w))))"

definition parse_urlencoded :: "string \<Rightarrow> (string \<times> string) list" where
  \<comment> \<open>the application/x-www-form-urlencoded parser\<close>
  "parse_urlencoded q = map parse_pair (filter (\<lambda>s. s \<noteq> []) (split_on CHR ''&'' q))"

definition searchParams :: "url \<Rightarrow> (string \<times> string) list" where
  \<comment> \<open>\<^verbatim>\<open>Array.from(url.searchParams.entries())\<close>\<close>
  "searchParams u = (case query u of None \<Rightarrow> [] | Some q \<Rightarrow> parse_urlencoded q)"

definition encode_byte :: "char \<Rightarrow> string" where
  "encode_byte c =
     (if c = CHR '' '' then ''+''
      else if c \<in> set urlencoded_safe then [c]
      else [CHR ''%'', hex_digit ((of_char c :: nat) div 16), hex_digit ((of_char c :: nat) mod 16)])"

definition urlencode :: "string \<Rightarrow> string" where
  "urlencode s = concat (map encode_byte s)"

fun URLSearchParams_toString :: "(string \<times> string) list \<Rightarrow> string" where
  \<comment> \<open>\<^verbatim>\<open>new URLSearchParams(entries).toString()\<close>\<close>
  "URLSearchParams_toString [] = []"
| "URLSearchParams_toString [(n, v)] = urlencode n @ CHR ''='' # urlencode v"
| "URLSearchParams_toString ((n, v) # e # es) =
     urlencode n @ CHR ''='' # urlencode v @ CHR ''&'' # URLSearchParams_toString (e # es)"

section \<open>URL utilities (src/utils/url.ts)\<close>

datatype error =
    MalformedURL             \<comment> \<open>the \<^verbatim>\<open>TypeError\<close> of \<^verbatim>\<open>new URL\<close> on an unparseable string\<close>
  | TypeError
  | NetworkError             \<comment> \<open>\<^verbatim>\<open>axios.get\<close> throws\<close>
  | NotXml                   \<comment> \<open>line 44\<close>
  | HttpStatusError nat      \<comment> \<open>line 60\<close>
  | UnknownFetchError        \<comment> \<open>line 73, when no error was recorded\<close>

definition normalizeUrl :: "(string \<Rightarrow> 'k::linorder) \<Rightarrow> string \<Rightarrow> error + string" where
  \<comment> \<open>\<open>collate\<close> stands for the platform's \<^verbatim>\<open>localeCompare\<close>: two keys compare as their
      collation keys do. \<^verbatim>\<open>Array.prototype.sort\<close> is stable, as \<open>sort_key\<close> is.\<close>
  "normalizeUrl collate raw =
     (case new_URL raw of
        None \<Rightarrow> Inl MalformedURL
      | Some url0 \<Rightarrow>
          let url1 = set_hash url0 [];
              url2 = (if pathname url1 \<noteq> ''/'' \<and> endsWith (pathname url1) ''/''
                      then set_pathname url1 (butlast (pathname url1)) else url1);
              entries = sort_key (\<lambda>e. collate (fst e)) (searchParams url2);
              url3 = set_search url2
                       (if entries \<noteq> [] then CHR ''?'' # URLSearchParams_toString entries else [])
          in Inr (toString url3))"

definition codeunit_key :: "string \<Rightarrow> nat list" where
  \<comment> \<open>a collation that compares strings code unit by code unit\<close>
  "codeunit_key s = map of_char s"

definition isSameHost :: "string \<Rightarrow> string \<Rightarrow> error + bool" where
  \<comment> \<open>\<open>Inl\<close> when one of the two \<^verbatim>\<open>new URL\<close> calls throws\<close>
  "isSameHost a b =
     (case new_URL a of None \<Rightarrow> Inl TypeError
      | Some ua \<Rightarrow>
          (case new_URL b of None \<Rightarrow> Inl TypeError
           | Some ub \<Rightarrow>
               let aHost = hostname ua;
                   bHost = hostname ub;
                   aIsLocal = (aHost = ''localhost'' \<or> aHost = ''127.0.0.1'');
                   bIsLocal = (bHost = ''localhost'' \<or> bHost = ''127.0.0.1'')
               in if aIsLocal \<and> bIsLocal then Inr True
                  else Inr (host ua = host ub \<and> protocol ua = protocol ub)))"

definition HTML_EXTENSIONS :: "string list" where
  "HTML_EXTENSIONS =
     [[], ''.html'', ''.htm'', ''.xhtml'', ''.php'', ''.php5'', ''.asp'', ''.aspx'', ''.jsp'',
      ''.cfm'']"

definition NON_HTML_EXTENSIONS :: "string list" where
  "NON_HTML_EXTENSIONS =
     [''.pdf'', ''.jpg'', ''.jpeg'', ''.png'', ''.gif'', ''.bmp'', ''.svg'', ''.webp'', ''.ico'',
      ''.avif'', ''.mp4'', ''.webm'', ''.mov'', ''.mkv'', ''.mp3'', ''.wav'', ''.flac'', ''.zip'',
      ''.rar'', ''.7z'', ''.gz'', ''.tgz'', ''.tar'', ''.bz2'', ''.json'', ''.xml'', ''.rss'',
      ''.atom'', ''.csv'', ''.txt'', ''.doc'', ''.docx'', ''.ppt'', ''.pptx'', ''.xls'', ''.xlsx'',
      ''.ics'', ''.ps'', ''.eps'', ''.woff'', ''.woff2'', ''.ttf'', ''.otf'', ''.eot'', ''.avi'',
      ''.ts'', ''.mpeg'', ''.mpg'', ''.flv'', ''.m4v'', ''.apk'', ''.dmg'', ''.exe'', ''.bin'',
      ''.iso'', ''.scss'', ''.less'', ''.css'']"

definition getExtension :: "string \<Rightarrow> string" where
  "getExtension pathname' =
     (if pathname' = [] \<or> endsWith pathname' ''/'' then []
      else let clean = last (split_on CHR ''/'' pathname')
           in if CHR ''.'' \<notin> set clean then []
              else toLowerCase (CHR ''.'' # rev (takeWhile (\<lambda>c. c \<noteq> CHR ''.'') (rev clean))))"

definition isLikelyHtmlPage :: "string \<Rightarrow> bool" where
  "isLikelyHtmlPage raw =
     (case new_URL raw of None \<Rightarrow> False
      | Some u \<Rightarrow>
          let ext = getExtension (toLowerCase (pathname u))
          in if ext \<in> set HTML_EXTENSIONS then True
             else if ext \<in> set NON_HTML_EXTENSIONS then False
             else True)"

section \<open>The crawler (crawler/crawl.ts)\<close>

text \<open>
  The crawler runs on JavaScript's single thread: a \<^verbatim>\<open>crawlPage\<close> call runs without
  interruption from its start to its first \<^verbatim>\<open>await\<close> (lines 47 to 54), and again from the
  arrival of the anchors to its end (lines 65 to 75). The calls of one batch interleave at
  these points only. A run is therefore modelled as a sequence of atomic events, chosen by
  the scheduler and the network: the loop takes a batch, a call of the batch starts, a
  suspended call finishes with the outcome of its page, and the function returns.
  Every theorem on runs holds for all such sequences.

  \<open>maxPages\<close>, \<open>maxDepth\<close> and \<open>concurrency\<close> are counts and are modelled as natural numbers.
  The options that are only handed to the browser (\<^verbatim>\<open>headless\<close>, \<^verbatim>\<open>browser\<close>,
  \<^verbatim>\<open>timeoutMs\<close>) are left out.
\<close>

record CrawlOptions =
  baseUrl :: string
  maxPages :: nat
  maxDepth :: nat
  concurrency :: nat
  respectRobots :: bool

record task =
  url :: string
  depth :: nat

record 'k platform =
  collate :: "string \<Rightarrow> 'k"
    \<comment> \<open>the collation keys behind \<^verbatim>\<open>localeCompare\<close>\<close>
  resolve_URL :: "string \<Rightarrow> string \<Rightarrow> string option"
    \<comment> \<open>\<^verbatim>\<open>new URL(href, base).toString()\<close>; \<open>None\<close> when it throws\<close>

record 'k crawl_env = "'k platform" +
  robots_allows :: "string \<Rightarrow> bool"
    \<comment> \<open>\<^verbatim>\<open>robots.allows\<close>, as \<^verbatim>\<open>parseRobots(startUrl)\<close> returned it\<close>

datatype page_result =
    ContextFailed          \<comment> \<open>\<^verbatim>\<open>newContext\<close> or \<^verbatim>\<open>newPage\<close> throws, outside the \<^verbatim>\<open>try\<close>\<close>
  | PageFailed             \<comment> \<open>an error inside the \<^verbatim>\<open>try\<close>, which the \<^verbatim>\<open>catch\<close> ignores\<close>
  | Anchors "string list"  \<comment> \<open>the \<^verbatim>\<open>href\<close> attributes that \<^verbatim>\<open>page.$$eval\<close> returned\<close>

datatype run_status = Running | Returned "string list" | Rejected

record crawl_state =
  visited :: "string list"   \<comment> \<open>the \<^verbatim>\<open>Set\<close>, in insertion order\<close>
  queue :: "task list"
  batch :: "task list"       \<comment> \<open>calls of the current batch that have not started\<close>
  inflight :: "task list"    \<comment> \<open>calls suspended between line 54 and line 64\<close>
  dispatched :: "task list"  \<comment> \<open>log: the tasks that went past line 52 to fetch their page\<close>
  status :: run_status

definition toAbsoluteUrl :: "'k crawl_env \<Rightarrow> string \<Rightarrow> string \<Rightarrow> string option" where
  "toAbsoluteUrl env base href = resolve_URL env href base"

definition set_add :: "string list \<Rightarrow> string \<Rightarrow> string list" where
  \<comment> \<open>\<^verbatim>\<open>Set.prototype.add\<close>\<close>
  "set_add s x = (if x \<in> set s then s else s @ [x])"

fun try_map :: "('a \<Rightarrow> error + 'b) \<Rightarrow> 'a list \<Rightarrow> error + 'b list" where
  \<comment> \<open>\<^verbatim>\<open>xs.map(f)\<close> for an \<open>f\<close> that may throw\<close>
  "try_map f [] = Inr []"
| "try_map f (x # xs) =
     (case f x of Inl e \<Rightarrow> Inl e
      | Inr y \<Rightarrow> (case try_map f xs of Inl e \<Rightarrow> Inl e | Inr ys \<Rightarrow> Inr (y # ys)))"

fun try_filter :: "('a \<Rightarrow> error + bool) \<Rightarrow> 'a list \<Rightarrow> error + 'a list" where
  \<comment> \<open>\<^verbatim>\<open>xs.filter(p)\<close> for a \<open>p\<close> that may throw\<close>
  "try_filter p [] = Inr []"
| "try_filter p (x # xs) =
     (case p x of Inl e \<Rightarrow> Inl e
      | Inr b \<Rightarrow>
          (case try_filter p xs of Inl e \<Rightarrow> Inl e
           | Inr ys \<Rightarrow> Inr (if b then x # ys else ys)))"

definition candidates :: "('k::linorder) crawl_env \<Rightarrow> string \<Rightarrow> string list \<Rightarrow> error + string list" where
  \<comment> \<open>lines 65 to 70\<close>
  "candidates env url' anchors =
     (case try_map (normalizeUrl (collate env))
             (filter (\<lambda>u. u \<noteq> []) (List.map_filter (toAbsoluteUrl env url') anchors)) of
        Inl e \<Rightarrow> Inl e
      | Inr us \<Rightarrow>
          (case try_filter (isSameHost url') us of
             Inl e \<Rightarrow> Inl e
           | Inr vs \<Rightarrow> Inr (filter isLikelyHtmlPage vs)))"

definition crawlPage_start ::
  "CrawlOptions \<Rightarrow> ('k::linorder) crawl_env \<Rightarrow> task \<Rightarrow> crawl_state \<Rightarrow> crawl_state" where
  \<comment> \<open>lines 47 to 52, up to the first \<^verbatim>\<open>await\<close>\<close>
  "crawlPage_start opts env t c =
     (if url t \<in> set (visited c) then c
      else if \<not> isLikelyHtmlPage (url t) then c
      else if respectRobots opts \<and> \<not> robots_allows env (url t) then c
      else if length (visited c) \<ge> maxPages opts then c
      else let c1 = c\<lparr>visited := set_add (visited c) (url t)\<rparr>
           in if depth t \<ge> maxDepth opts then c1
              else c1\<lparr>inflight := inflight c1 @ [t], dispatched := dispatched c1 @ [t]\<rparr>)"

definition crawlPage_finish ::
  "('k::linorder) crawl_env \<Rightarrow> task \<Rightarrow> page_result \<Rightarrow> crawl_state \<Rightarrow> crawl_state" where
  \<comment> \<open>lines 54 to 80, from the first \<^verbatim>\<open>await\<close> on\<close>
  "crawlPage_finish env t r c =
     (case r of
        ContextFailed \<Rightarrow> c\<lparr>status := (if status c = Running then Rejected else status c)\<rparr>
      | PageFailed \<Rightarrow> c
      | Anchors anchors \<Rightarrow>
          (case candidates env (url t) anchors of
             Inl e \<Rightarrow> c
           | Inr cands \<Rightarrow>
               c\<lparr>queue := queue c @
                    map (\<lambda>next. \<lparr>url = next, depth = depth t + 1\<rparr>)
                      (filter (\<lambda>next. next \<notin> set (visited c)) cands)\<rparr>))"

datatype event =
    NextBatch                  \<comment> \<open>the loop test holds and lines 34 and 35 hand out a batch\<close>
  | Start                      \<comment> \<open>the limiter starts the next call of the batch\<close>
  | Finish nat page_result     \<comment> \<open>the suspended call at this index gets the outcome of its page\<close>
  | Return                     \<comment> \<open>the loop test fails and line 44 returns\<close>

definition loop_test :: "CrawlOptions \<Rightarrow> crawl_state \<Rightarrow> bool" where
  \<comment> \<open>line 33\<close>
  "loop_test opts c = (queue c \<noteq> [] \<and> length (visited c) < maxPages opts)"

definition batch_done :: "crawl_state \<Rightarrow> bool" where
  \<comment> \<open>\<^verbatim>\<open>Promise.all\<close> has resolved\<close>
  "batch_done c = (status c = Running \<and> batch c = [] \<and> inflight c = [])"

definition step ::
  "CrawlOptions \<Rightarrow> ('k::linorder) crawl_env \<Rightarrow> event \<Rightarrow> crawl_state \<Rightarrow> crawl_state option" where
  \<comment> \<open>\<open>None\<close> when the event cannot happen in this state\<close>
  "step opts env e c =
     (case e of
        NextBatch \<Rightarrow>
          if batch_done c \<and> loop_test opts c
          then Some (c\<lparr>batch := take (concurrency opts) (queue c),
                       queue := drop (concurrency opts) (queue c)\<rparr>)
          else None
      | Start \<Rightarrow>
          (case batch c of [] \<Rightarrow> None
           | t # ts \<Rightarrow> Some (crawlPage_start opts env t (c\<lparr>batch := ts\<rparr>)))
      | Finish i r \<Rightarrow>
          if i < length (inflight c)
          then Some (crawlPage_finish env (inflight c ! i) r
                       (c\<lparr>inflight := take i (inflight c) @ drop (Suc i) (inflight c)\<rparr>))
          else None
      | Return \<Rightarrow>
          if batch_done c \<and> \<not> loop_test opts c
          then Some (c\<lparr>status := Returned (visited c)\<rparr>)
          else None)"

fun run :: "CrawlOptions \<Rightarrow> ('k::linorder) crawl_env \<Rightarrow> event list \<Rightarrow> crawl_state \<Rightarrow> crawl_state option" where
  "run opts env [] c = Some c"
| "run opts env (e # es) c =
     (case step opts env e c of None \<Rightarrow> None | Some c' \<Rightarrow> run opts env es c')"

definition crawlSite_init :: "CrawlOptions \<Rightarrow> ('k::linorder) crawl_env \<Rightarrow> error + crawl_state" where
  \<comment> \<open>lines 23 to 26; \<^verbatim>\<open>pLimit\<close> throws a \<^verbatim>\<open>TypeError\<close> unless the concurrency is at least 1\<close>
  "crawlSite_init opts env =
     (case normalizeUrl (collate env) (baseUrl opts) of
        Inl e \<Rightarrow> Inl e
      | Inr startUrl \<Rightarrow>
          if concurrency opts = 0 then Inl TypeError
          else Inr \<lparr>visited = [], queue = [\<lparr>url = startUrl, depth = 0\<rparr>], batch = [],
                    inflight = [], dispatched = [], status = Running\<rparr>)"

definition crawlSite ::
  "CrawlOptions \<Rightarrow> ('k::linorder) crawl_env \<Rightarrow> event list \<Rightarrow> (error + crawl_state) option" where
  \<comment> \<open>the state that a run of \<^verbatim>\<open>crawlSite\<close> is in after the given events\<close>
  "crawlSite opts env es =
     (case crawlSite_init opts env of
        Inl e \<Rightarrow> Some (Inl e)
      | Inr c0 \<Rightarrow> map_option Inr (run opts env es c0))"

section \<open>The sitemap harvester (sitemap/fetchSitemap.ts)\<close>

text \<open>
  The network, the clock and the libraries are parameters of the model. Requests are
  numbered in the order in which the harvester issues them, and the server's answer may
  depend on that number, so that a server may answer the same URL differently each time.
  The state records the number of requests issued so far and the log of requests and
  pauses.
\<close>

datatype http_result =
    Throws                            \<comment> \<open>\<^verbatim>\<open>axios.get\<close> throws (connection failure, timeout)\<close>
  | Response nat string string string
      \<comment> \<open>status, \<^verbatim>\<open>content-type\<close> header, \<^verbatim>\<open>retry-after\<close> header (empty when absent), body\<close>

record xml_doc =
  urlset_url :: "string list"
    \<comment> \<open>the \<^verbatim>\<open>loc\<close> of each entry of \<^verbatim>\<open>parsed.urlset.url\<close>; empty when it has none\<close>
  sitemapindex_sitemap :: "string list"
    \<comment> \<open>the \<^verbatim>\<open>loc\<close> of each entry of \<^verbatim>\<open>parsed.sitemapindex.sitemap\<close>\<close>

datatype xml_result =
    XmlError          \<comment> \<open>\<^verbatim>\<open>parseStringPromise\<close> rejects\<close>
  | XmlNull           \<comment> \<open>it resolves to \<^verbatim>\<open>null\<close>, on which reading \<^verbatim>\<open>parsed.urlset\<close> throws\<close>
  | XmlDoc xml_doc

record 'k sitemap_env = "'k platform" +
  http_get :: "nat \<Rightarrow> string \<Rightarrow> http_result"
    \<comment> \<open>the outcome of the request with this number to this URL\<close>
  Date_now :: "nat \<Rightarrow> int"
    \<comment> \<open>\<^verbatim>\<open>Date.now()\<close> when the answer to the request with this number is handled\<close>
  js_Number :: "string \<Rightarrow> rat option"
    \<comment> \<open>\<^verbatim>\<open>Number(s)\<close>, finite; \<open>None\<close> is \<^verbatim>\<open>NaN\<close>\<close>
  Date_parse :: "string \<Rightarrow> int option"
    \<comment> \<open>\<^verbatim>\<open>Date.parse(s)\<close>; \<open>None\<close> is \<^verbatim>\<open>NaN\<close>\<close>
  parseStringPromise :: "string \<Rightarrow> xml_result"
    \<comment> \<open>the XML parser of \<^verbatim>\<open>xml2js\<close>, with the options of line 89\<close>

datatype io_event = Get string | Sleep int

record fetch_state =
  requests :: nat
  io_log :: "io_event list"

definition parseRetryAfterMs :: "('k, 'z) sitemap_env_scheme \<Rightarrow> nat \<Rightarrow> string \<Rightarrow> int option" where
  \<comment> \<open>\<open>n\<close> is the number of the request whose answer carries the header\<close>
  "parseRetryAfterMs env n retryAfter =
     (if retryAfter = [] then None
      else case js_Number env retryAfter of
             Some asNumber \<Rightarrow> Some (max 0 \<lfloor>asNumber * 1000\<rfloor>)
           | None \<Rightarrow>
               (case Date_parse env retryAfter of
                  Some date \<Rightarrow>
                    let diff = date - Date_now env n in Some (if diff > 0 then diff else 0)
                | None \<Rightarrow> None))"

definition is_space :: "char \<Rightarrow> bool" where
  \<comment> \<open>the ASCII characters of the regular expression class \<^verbatim>\<open>\s\<close>\<close>
  "is_space c = (c \<in> set [CHR '' '', CHR 0x09, CHR 0x0A, CHR 0x0B, CHR 0x0C, CHR 0x0D])"

definition xml_tag_at :: "string \<Rightarrow> bool" where
  \<comment> \<open>the regular expression of line 41 matches at the start of the string\<close>
  "xml_tag_at s =
     (case s of [] \<Rightarrow> False
      | c # r \<Rightarrow>
          c = CHR ''<'' \<and>
          (let r' = dropWhile is_space r in
           list_ex (\<lambda>kw. prefix kw (toLowerCase r') \<and>
                         (case drop (length kw) r' of [] \<Rightarrow> False
                          | d # _ \<Rightarrow> is_space d \<or> d = CHR ''>''))
             [''?xml'', ''urlset'', ''sitemapindex'']))"

fun looksXml :: "string \<Rightarrow> bool" where
  "looksXml [] = False"
| "looksXml (c # cs) = (xml_tag_at (c # cs) \<or> looksXml cs)"

definition maxAttempts :: nat where
  "maxAttempts = 4"

definition backoffMs :: "nat \<Rightarrow> int" where
  \<comment> \<open>\<^verbatim>\<open>Math.min(30000, 1000 * Math.pow(2, attempt))\<close>\<close>
  "backoffMs attempt = min 30000 (1000 * 2 ^ attempt)"

function fetchXml_loop ::
  "('k, 'z) sitemap_env_scheme \<Rightarrow> string \<Rightarrow> nat \<Rightarrow> error option \<Rightarrow> fetch_state \<Rightarrow>
     (error + string) \<times> fetch_state" where
  "fetchXml_loop env url' attempt lastError st =
     (if attempt > maxAttempts then
        (Inl (case lastError of Some e \<Rightarrow> e | None \<Rightarrow> UnknownFetchError), st)
      else
        let n = requests st;
            st1 = st\<lparr>requests := n + 1, io_log := io_log st @ [Get url']\<rparr>;
            caught = (\<lambda>err.
              if attempt < maxAttempts
              then fetchXml_loop env url' (attempt + 1) (Some err)
                     (st1\<lparr>io_log := io_log st1 @ [Sleep (backoffMs attempt)]\<rparr>)
              else fetchXml_loop env url' (attempt + 1) (Some err) st1)
        in case http_get env n url' of
             Throws \<Rightarrow> caught NetworkError
           | Response status' contentType retryAfter body \<Rightarrow>
               if 200 \<le> status' \<and> status' < 300 then
                 (if \<not> looksXml body \<and>
                     \<not> (str_includes (toLowerCase contentType) ''xml'' \<or>
                        str_includes (toLowerCase contentType) ''text/plain'')
                  then caught NotXml
                  else (Inr body, st1))
               else if status' = 429 \<or> status' = 503 then
                 let ms = (case parseRetryAfterMs env n retryAfter of
                             Some retryAfterMs \<Rightarrow> retryAfterMs
                           | None \<Rightarrow> backoffMs attempt)
                 in fetchXml_loop env url' (attempt + 1) lastError
                      (st1\<lparr>io_log := io_log st1 @ [Sleep ms]\<rparr>)
               else caught (HttpStatusError status'))"
  by pat_completeness auto
termination
  by (relation "measure (\<lambda>(env, u, attempt, e, st). Suc maxAttempts - attempt)") auto

definition fetchXml ::
  "('k, 'z) sitemap_env_scheme \<Rightarrow> string \<Rightarrow> fetch_state \<Rightarrow> (error + string) \<times> fetch_state" where
  "fetchXml env url' st = fetchXml_loop env url' 1 None st"

definition set_protocol :: "url \<Rightarrow> string \<Rightarrow> url" where
  \<comment> \<open>\<^verbatim>\<open>u.protocol = v\<close> between \<^verbatim>\<open>http:\<close> and \<^verbatim>\<open>https:\<close>; a port that is the default of the
      new scheme is dropped\<close>
  "set_protocol u v = u\<lparr>protocol := v, port := (if port u = default_port v then [] else port u)\<rparr>"

definition set_host :: "url \<Rightarrow> string \<Rightarrow> url" where
  \<comment> \<open>\<^verbatim>\<open>u.host = v\<close>: the port changes only when \<open>v\<close> carries one\<close>
  "set_host u v =
     (case split_first CHR '':'' v of
        (h, None) \<Rightarrow> u\<lparr>hostname := h\<rparr>
      | (h, Some p) \<Rightarrow>
          u\<lparr>hostname := h, port := (if p = default_port (protocol u) then [] else p)\<rparr>)"

definition rewriteToBaseOriginIfLocal :: "url \<Rightarrow> string \<Rightarrow> string" where
  "rewriteToBaseOriginIfLocal baseUrl' absoluteUrl =
     (let baseIsLocal = (hostname baseUrl' = ''localhost'' \<or> hostname baseUrl' = ''127.0.0.1'')
      in if \<not> baseIsLocal then absoluteUrl
         else case new_URL absoluteUrl of
                None \<Rightarrow> absoluteUrl
              | Some u \<Rightarrow> toString (set_host (set_protocol u (protocol baseUrl')) (host baseUrl')))"

fun urlset_loop ::
  "('k::linorder, 'z) sitemap_env_scheme \<Rightarrow> string \<Rightarrow> url \<Rightarrow> string list \<Rightarrow> string list \<Rightarrow>
     error + string list" where
  \<comment> \<open>lines 115 to 132; \<open>urls\<close> is the \<^verbatim>\<open>Set\<close> built so far\<close>
  "urlset_loop env base baseUrl' [] urls = Inr urls"
| "urlset_loop env base baseUrl' (loc # items) urls =
     (if loc = [] then urlset_loop env base baseUrl' items urls
      else case resolve_URL env loc base of
             None \<Rightarrow> urlset_loop env base baseUrl' items urls
           | Some absolute \<Rightarrow>
               if absolute = [] then urlset_loop env base baseUrl' items urls
               else
                 (case normalizeUrl (collate env) (rewriteToBaseOriginIfLocal baseUrl' absolute) of
                    Inl e \<Rightarrow> Inl e
                  | Inr normalized \<Rightarrow>
                      (case isSameHost base normalized of
                         Inl e \<Rightarrow> Inl e
                       | Inr same \<Rightarrow>
                           urlset_loop env base baseUrl' items
                             (if same then set_add urls normalized else urls))))"

text \<open>
  \<^verbatim>\<open>parseSitemapUrls\<close> calls itself for every entry of a sitemap index, and nothing bounds
  the nesting. The model therefore takes fuel, the number of nested calls that it may
  still open: \<open>None\<close> means that the fuel did not suffice, and a call that returns \<open>None\<close>
  for every amount of fuel does not return.
\<close>

fun parseSitemapUrls ::
  "nat \<Rightarrow> ('k::linorder, 'z) sitemap_env_scheme \<Rightarrow> string \<Rightarrow> string \<Rightarrow> fetch_state \<Rightarrow>
     ((error + string list) \<times> fetch_state) option"
and sitemapindex_loop ::
  "nat \<Rightarrow> ('k::linorder, 'z) sitemap_env_scheme \<Rightarrow> string \<Rightarrow> url \<Rightarrow> string list \<Rightarrow> string list \<Rightarrow>
     fetch_state \<Rightarrow> ((error + string list) \<times> fetch_state) option" where
  "parseSitemapUrls 0 env sitemapUrl base st = None"
| "parseSitemapUrls (Suc fuel) env sitemapUrl base st =
     (case fetchXml env sitemapUrl st of
        (Inl err, st1) \<Rightarrow> Some (Inr [], st1)
      | (Inr xml, st1) \<Rightarrow>
          (case parseStringPromise env xml of
             XmlError \<Rightarrow> Some (Inr [], st1)
           | XmlNull \<Rightarrow> Some (Inl TypeError, st1)
           | XmlDoc parsed \<Rightarrow>
               (case new_URL base of
                  None \<Rightarrow> Some (Inl MalformedURL, st1)
                | Some baseUrl' \<Rightarrow>
                    (case urlset_loop env base baseUrl' (urlset_url parsed) [] of
                       Inl e \<Rightarrow> Some (Inl e, st1)
                     | Inr urls \<Rightarrow>
                         sitemapindex_loop fuel env base baseUrl' (sitemapindex_sitemap parsed)
                           urls st1))))"
| "sitemapindex_loop fuel env base baseUrl' [] urls st = Some (Inr urls, st)"
| "sitemapindex_loop fuel env base baseUrl' (loc # items) urls st =
     (if loc = [] then sitemapindex_loop fuel env base baseUrl' items urls st
      else case resolve_URL env loc base of
             None \<Rightarrow> sitemapindex_loop fuel env base baseUrl' items urls st
           | Some sitemapUrlAbs \<Rightarrow>
               if sitemapUrlAbs = [] then sitemapindex_loop fuel env base baseUrl' items urls st
               else
                 (case parseSitemapUrls fuel env
                         (rewriteToBaseOriginIfLocal baseUrl' sitemapUrlAbs) base st of
                    None \<Rightarrow> None
                  | Some (Inl e, st') \<Rightarrow> Some (Inl e, st')
                  | Some (Inr nested, st') \<Rightarrow>
                      sitemapindex_loop fuel env base baseUrl' items
                        (foldl set_add urls nested) st'))"

section \<open>Example inputs\<close>

definition absolute_only :: "string \<Rightarrow> string \<Rightarrow> string option" where
  \<comment> \<open>\<^verbatim>\<open>new URL(href, base).toString()\<close> for references that are absolute URLs of the modelled
      form, as all references of the examples are\<close>
  "absolute_only href base = map_option toString (new_URL href)"

definition example_env :: "(nat list) crawl_env" where
  "example_env =
     \<lparr>collate = codeunit_key, resolve_URL = absolute_only,
      robots_allows = (\<lambda>u. u \<noteq> ''http://a.com/private'')\<rparr>"

definition example_opts :: CrawlOptions where
  "example_opts =
     \<lparr>baseUrl = ''http://a.com'', maxPages = 3, maxDepth = 1, concurrency = 5,
      respectRobots = True\<rparr>"

definition example_anchors :: "string list" where
  "example_anchors =
     [''http://a.com/x//'', ''http://a.com/private'', ''http://a.com/b'', ''http://a.com/b'',
      ''http://a.com/c.pdf'', ''http://b.com/'', ''http://a.com/d'', ''http://a.com/e'']"

definition example_events :: "event list" where
  \<comment> \<open>the seed page is fetched; the first five of its six links form the second batch\<close>
  "example_events =
     [NextBatch, Start, Finish 0 (Anchors example_anchors),
      NextBatch, Start, Start, Start, Start, Start, Return]"

definition example_final :: crawl_state where
  "example_final =
     \<lparr>visited = [''http://a.com/'', ''http://a.com/x/'', ''http://a.com/b''],
      queue = [\<lparr>url = ''http://a.com/e'', depth = 1\<rparr>],
      batch = [], inflight = [],
      dispatched = [\<lparr>url = ''http://a.com/'', depth = 0\<rparr>],
      status = Returned [''http://a.com/'', ''http://a.com/x/'', ''http://a.com/b'']\<rparr>"

definition example_opts_deep :: CrawlOptions where
  "example_opts_deep = example_opts\<lparr>maxPages := 10, maxDepth := 2\<rparr>"

definition example_events_deep :: "event list" where
  \<comment> \<open>the second batch holds the link to \<^verbatim>\<open>/b\<close> twice; its calls have started\<close>
  "example_events_deep =
     [NextBatch, Start, Finish 0 (Anchors example_anchors),
      NextBatch, Start, Start, Start, Start, Start]"

definition example_state_deep :: crawl_state where
  "example_state_deep =
     \<lparr>visited = [''http://a.com/'', ''http://a.com/x/'', ''http://a.com/b'', ''http://a.com/d''],
      queue = [\<lparr>url = ''http://a.com/e'', depth = 1\<rparr>],
      batch = [],
      inflight = [\<lparr>url = ''http://a.com/x/'', depth = 1\<rparr>, \<lparr>url = ''http://a.com/b'', depth = 1\<rparr>,
                  \<lparr>url = ''http://a.com/d'', depth = 1\<rparr>],
      dispatched = [\<lparr>url = ''http://a.com/'', depth = 0\<rparr>, \<lparr>url = ''http://a.com/x/'', depth = 1\<rparr>,
                    \<lparr>url = ''http://a.com/b'', depth = 1\<rparr>, \<lparr>url = ''http://a.com/d'', depth = 1\<rparr>],
      status = Running\<rparr>"

definition example_state_seeded :: crawl_state where
  \<comment> \<open>the state of the example run after the seed page was fetched\<close>
  "example_state_seeded =
     \<lparr>visited = [''http://a.com/''], queue = [], batch = [], inflight = [],
      dispatched = [\<lparr>url = ''http://a.com/'', depth = 0\<rparr>], status = Running\<rparr>"

definition example_task_private :: task where
  "example_task_private = \<lparr>url = ''http://a.com/private'', depth = 1\<rparr>"

definition example_task_pdf :: task where
  "example_task_pdf = \<lparr>url = ''http://a.com/c.pdf'', depth = 1\<rparr>"

definition cyclic_body :: string where
  \<comment> \<open>a sitemap index whose only entry is the URL it is served from\<close>
  "cyclic_body =
     ''<sitemapindex><sitemap><loc>http://a.com/sitemap.xml</loc></sitemap></sitemapindex>''"

definition cyclic_env :: "(nat list) sitemap_env" where
  \<comment> \<open>a server that answers every request with \<open>cyclic_body\<close>\<close>
  "cyclic_env =
     \<lparr>collate = codeunit_key, resolve_URL = absolute_only,
      http_get = (\<lambda>n u. Response 200 ''application/xml'' [] cyclic_body),
      Date_now = (\<lambda>n. 0),
      js_Number = (\<lambda>s. if s = ''2'' then Some 2 else None),
      Date_parse = (\<lambda>s. None),
      parseStringPromise =
        (\<lambda>s. if s = cyclic_body
             then XmlDoc \<lparr>urlset_url = [], sitemapindex_sitemap = [''http://a.com/sitemap.xml'']\<rparr>
             else XmlError)\<rparr>"

definition busy_env :: "(nat list) sitemap_env" where
  \<comment> \<open>a server that answers 503, the first time with \<^verbatim>\<open>Retry-After: 2\<close>\<close>
  "busy_env = cyclic_env\<lparr>http_get := (\<lambda>n u. Response 503 [] (if n = 0 then ''2'' else []) [])\<rparr>"

definition fetch_start :: fetch_state where
  "fetch_start = \<lparr>requests = 0, io_log = []\<rparr>"

definition busy_end :: fetch_state where
  "busy_end =
     \<lparr>requests = 4,
      io_log = [Get ''http://a.com/sitemap.xml'', Sleep 2000,
                Get ''http://a.com/sitemap.xml'', Sleep 4000,
                Get ''http://a.com/sitemap.xml'', Sleep 8000,
                Get ''http://a.com/sitemap.xml'', Sleep 16000]\<rparr>"



section \<open>Well-formed URL records\<close>

definition wf_url :: "url \<Rightarrow> bool" where
  \<comment> \<open>the records that \<open>new_URL\<close> produces\<close>
  "wf_url u =
     ((protocol u = ''http:'' \<or> protocol u = ''https:'') \<and> valid_hostname (hostname u) \<and>
      (port u = [] \<or> (valid_port_digits (port u) \<and> port u \<noteq> default_port (protocol u))) \<and>
      valid_path (pathname u) \<and> valid_query (query u) \<and> valid_fragment (fragment u))"



section \<open>Invariants of a run\<close>


definition once_inv :: "crawl_state \<Rightarrow> bool" where
  "once_inv c =
     (distinct (map url (dispatched c)) \<and> set (map url (dispatched c)) \<subseteq> set (visited c))"

definition task_origin :: "string \<Rightarrow> task list \<Rightarrow> task \<Rightarrow> bool" where
  \<comment> \<open>the task is the seed, or it is one level below a page that was fetched\<close>
  "task_origin s D t = ((depth t = 0 \<and> url t = s) \<or> list_ex (\<lambda>p. depth t = depth p + 1) D)"

definition depth_inv :: "CrawlOptions \<Rightarrow> string \<Rightarrow> crawl_state \<Rightarrow> bool" where
  "depth_inv opts s c =
     (list_all (\<lambda>t. depth t < maxDepth opts) (dispatched c) \<and>
      set (inflight c) \<subseteq> set (dispatched c) \<and>
      list_all (task_origin s (dispatched c)) (queue c @ batch c @ inflight c @ dispatched c))"

definition is_local :: "url \<Rightarrow> bool" where
  "is_local u = (hostname u = ''localhost'' \<or> hostname u = ''127.0.0.1'')"

definition link_ok :: "(string \<Rightarrow> 'k::linorder) \<Rightarrow> string \<Rightarrow> string \<Rightarrow> bool" where
  \<comment> \<open>a result of \<open>normalizeUrl\<close> that is the seed or on the host of the seed\<close>
  "link_ok k s x = ((\<exists>raw. normalizeUrl k raw = Inr x) \<and> (x = s \<or> isSameHost s x = Inr True))"

definition host_inv :: "(string \<Rightarrow> 'k::linorder) \<Rightarrow> string \<Rightarrow> crawl_state \<Rightarrow> bool" where
  "host_inv k s c =
     (list_all (link_ok k s) (map url (queue c @ batch c @ inflight c)) \<and>
      list_all (\<lambda>x. link_ok k s x \<and> isLikelyHtmlPage x) (visited c) \<and>
      (case status c of
         Returned xs \<Rightarrow> list_all (\<lambda>x. link_ok k s x \<and> isLikelyHtmlPage x) xs
       | _ \<Rightarrow> True))"

section \<open>Facts about the URL class\<close>

subsection \<open>Splitting\<close>

lemma split_first_none: "c \<notin> set a \<Longrightarrow> split_first c a = (a, None)"
  by (induction a) (auto simp: split_first_def)

lemma split_first_some: "c \<notin> set a \<Longrightarrow> split_first c (a @ c # b) = (a, Some b)"
  by (induction a) (auto simp: split_first_def)

lemma split_on_nonempty [simp]: "split_on c s \<noteq> []"
  by (induction s) (auto split: list.splits)




lemma split_on_chars: "x \<in> set s \<Longrightarrow> x = c \<or> (\<exists>l\<in>set (split_on c s). x \<in> set l)"
  by (induction s) (auto split: list.splits if_splits)



subsection \<open>Characters of the components\<close>

lemmas charset_defs =
  host_label_chars_def path_chars_def query_chars_def fragment_chars_def urlencoded_safe_def
  ascii_lower_def ascii_upper_def ascii_digits_def

lemma not_in_charset: "list_all (\<lambda>c. c \<in> set S) p \<Longrightarrow> x \<notin> set S \<Longrightarrow> x \<notin> set p"
  by (auto simp: list_all_iff)

lemma host_seps:
  "CHR ''#'' \<notin> set (host_label_chars @ ''.'')" "CHR ''?'' \<notin> set (host_label_chars @ ''.'')"
  "CHR ''/'' \<notin> set (host_label_chars @ ''.'')" "CHR '':'' \<notin> set (host_label_chars @ ''.'')"
  by (simp_all add: charset_defs)




lemma loopback_chars: "list_all (\<lambda>c. c \<in> set (host_label_chars @ ''.'')) ''127.0.0.1''"
  by (simp add: charset_defs)

lemma hostname_chars:
  assumes "valid_hostname h"
  shows "list_all (\<lambda>c. c \<in> set (host_label_chars @ ''.'')) h"
proof (cases "h = ''127.0.0.1''")
  case True
  then show ?thesis by (simp only: loopback_chars)
next
  case False
  with assms have l: "list_all host_label_ok (split_on CHR ''.'' h)"
    by (simp add: valid_hostname_def)
  show ?thesis
    unfolding list_all_iff
  proof
    fix c assume "c \<in> set h"
    from split_on_chars[OF this, of "CHR ''.''"] show "c \<in> set (host_label_chars @ ''.'')"
    proof
      assume "c = CHR ''.''" then show ?thesis by simp
    next
      assume "\<exists>l\<in>set (split_on CHR ''.'' h). c \<in> set l"
      then obtain lb where "lb \<in> set (split_on CHR ''.'' h)" "c \<in> set lb" by blast
      with l have "c \<in> set host_label_chars"
        unfolding list_all_iff host_label_ok_def by blast
      then show ?thesis by simp
    qed
  qed
qed

lemma hostname_no_sep:
  assumes "valid_hostname h"
  shows "CHR ''#'' \<notin> set h" "CHR ''?'' \<notin> set h" "CHR ''/'' \<notin> set h" "CHR '':'' \<notin> set h"
proof -
  note l = hostname_chars[OF assms]
  from l host_seps(1) show "CHR ''#'' \<notin> set h" by (rule not_in_charset)
  from l host_seps(2) show "CHR ''?'' \<notin> set h" by (rule not_in_charset)
  from l host_seps(3) show "CHR ''/'' \<notin> set h" by (rule not_in_charset)
  from l host_seps(4) show "CHR '':'' \<notin> set h" by (rule not_in_charset)
qed










lemma new_URL_wf:
  assumes "new_URL raw = Some u"
  shows "wf_url u"
proof -
  obtain s1 frag where a: "split_first CHR ''#'' raw = (s1, frag)" by (cases "split_first CHR ''#'' raw")
  obtain s2 qry where b: "split_first CHR ''?'' s1 = (s2, qry)" by (cases "split_first CHR ''?'' s1")
  from assms a b obtain proto rest where c: "strip_scheme s2 = Some (proto, rest)"
    by (auto simp: new_URL_def split: option.splits)
  obtain auth path where d: "split_first CHR ''/'' rest = (auth, path)" by (cases "split_first CHR ''/'' rest")
  obtain h p where e: "split_first CHR '':'' auth = (h, p)" by (cases "split_first CHR '':'' auth")
  from assms a b c d e obtain prt where f: "parse_port proto p = Some prt"
    by (auto simp: new_URL_def split: option.splits)
  define pth where "pth = (case path of None \<Rightarrow> ''/'' | Some r \<Rightarrow> CHR ''/'' # r)"
  from assms have g: "valid_hostname h \<and> valid_path pth \<and> valid_query qry \<and> valid_fragment frag"
    and u: "u = \<lparr>protocol = proto, hostname = h, port = prt, pathname = pth,
                          query = qry, fragment = frag\<rparr>"
    unfolding new_URL_def a b c d e f prod.case option.case Let_def pth_def[symmetric]
    by (simp_all split: if_splits)
  from c have proto: "proto = ''http:'' \<or> proto = ''https:''"
    by (auto simp: strip_scheme_def split: if_splits)
  from f have prt: "prt = [] \<or> (valid_port_digits prt \<and> prt \<noteq> default_port proto)"
    by (auto simp: parse_port_def split: option.splits if_splits)
  from g proto prt show ?thesis by (simp add: wf_url_def u)
qed

subsection \<open>The form-urlencoded codec\<close>














lemma plus_to_space_append: "plus_to_space (a @ b) = plus_to_space a @ plus_to_space b"
  by (simp add: plus_to_space_def)

lemma plus_to_space_keep: "c \<noteq> CHR ''+'' \<Longrightarrow> plus_to_space (c # r) = c # plus_to_space r"
  by (simp add: plus_to_space_def)





lemma pair_nonempty: "urlencode n @ CHR ''='' # urlencode v \<noteq> []"
  by simp






subsection \<open>The canonical form\<close>








section \<open>Properties of normalizeUrl\<close>











section \<open>Runs of the crawler\<close>

lemma run_invariant:
  assumes "\<And>e c c'. I c \<Longrightarrow> step opts env e c = Some c' \<Longrightarrow> I c'"
    and "I c0" and "run opts env es c0 = Some c"
  shows "I c"
  using assms(2,3)
proof (induction es arbitrary: c0)
  case Nil
  then show ?case by simp
next
  case (Cons e es)
  then obtain c1 where s: "step opts env e c0 = Some c1" and r: "run opts env es c1 = Some c"
    by (auto split: option.splits)
  from assms(1)[OF Cons.prems(1) s] r show ?case by (rule Cons.IH)
qed

lemma visited_finish [simp]: "visited (crawlPage_finish env t r c) = visited c"
  by (simp add: crawlPage_finish_def split: page_result.splits sum.splits)

lemma dispatched_finish [simp]: "dispatched (crawlPage_finish env t r c) = dispatched c"
  by (simp add: crawlPage_finish_def split: page_result.splits sum.splits)

lemma status_start [simp]: "status (crawlPage_start opts env t c) = status c"
  by (simp add: crawlPage_start_def Let_def)




lemma init_state:
  "crawlSite_init opts env = Inr c0 \<Longrightarrow>
   \<exists>s. normalizeUrl (collate env) (baseUrl opts) = Inr s \<and>
       c0 = \<lparr>visited = [], queue = [\<lparr>url = s, depth = 0\<rparr>], batch = [], inflight = [],
             dispatched = [], status = Running\<rparr>"
  by (auto simp: crawlSite_init_def split: sum.splits if_splits)

lemma crawlSite_run:
  "crawlSite opts env es = Some (Inr c) \<Longrightarrow>
   \<exists>c0. crawlSite_init opts env = Inr c0 \<and> run opts env es c0 = Some c"
  by (auto simp: crawlSite_def split: sum.splits)

lemma crawlSite_invariant:
  assumes "crawlSite opts env es = Some (Inr c)"
    and "\<And>s. normalizeUrl (collate env) (baseUrl opts) = Inr s \<Longrightarrow>
           I \<lparr>visited = [], queue = [\<lparr>url = s, depth = 0\<rparr>], batch = [], inflight = [],
              dispatched = [], status = Running\<rparr>"
    and "\<And>e c c'. I c \<Longrightarrow> step opts env e c = Some c' \<Longrightarrow> I c'"
  shows "I c"
proof -
  from crawlSite_run[OF assms(1)] obtain c0 where i: "crawlSite_init opts env = Inr c0"
    and r: "run opts env es c0 = Some c" by blast
  from init_state[OF i] assms(2) have "I c0" by blast
  from assms(3) this r show ?thesis by (rule run_invariant)
qed

lemma example_run:
  "crawlSite example_opts example_env example_events = Some (Inr example_final)"
  by code_simp

lemma example_run_deep:
  "crawlSite example_opts_deep example_env example_events_deep = Some (Inr example_state_deep)"
  by code_simp




lemma once_start:
  "once_inv c \<Longrightarrow> once_inv (crawlPage_start opts env t c)"
  by (auto simp: once_inv_def crawlPage_start_def Let_def set_add_def image_subset_iff)

lemma once_step:
  "once_inv c \<Longrightarrow> step opts env e c = Some c' \<Longrightarrow> once_inv c'"
proof (cases e)
  case Start
  assume a: "once_inv c" "step opts env e c = Some c'"
  with Start obtain t ts where c': "c' = crawlPage_start opts env t (c\<lparr>batch := ts\<rparr>)"
    by (auto simp: step_def split: list.splits)
  from a(1) have "once_inv (c\<lparr>batch := ts\<rparr>)" by (simp add: once_inv_def)
  then show ?thesis unfolding c' by (rule once_start)
next
  case NextBatch
  assume "once_inv c" "step opts env e c = Some c'"
  with NextBatch show ?thesis
    by (auto simp: step_def once_inv_def image_subset_iff split: if_splits)
next
  case (Finish i r)
  assume "once_inv c" "step opts env e c = Some c'"
  with Finish show ?thesis
    by (auto simp: step_def once_inv_def image_subset_iff split: if_splits)
next
  case Return
  assume "once_inv c" "step opts env e c = Some c'"
  with Return show ?thesis
    by (auto simp: step_def once_inv_def image_subset_iff split: if_splits)
qed

text \<open>
  Claim C2. In every state that a run of \<^verbatim>\<open>crawlSite\<close> reaches, the URLs that were dispatched
  to a page fetch are pairwise distinct: no URL is fetched twice, however often it was
  discovered. The test of line 47 and the insertion of line 51 belong to one atomic event
  of the run, and every dispatched URL is in the visited set from then on.
\<close>

theorem crawlSite_fetch_at_most_once:
  assumes "crawlSite opts env es = Some (Inr c)"
  shows "distinct (map url (dispatched c)) \<and> set (map url (dispatched c)) \<subseteq> set (visited c)"
proof -
  have "once_inv c"
    using assms
  proof (rule crawlSite_invariant)
    show "once_inv c \<Longrightarrow> step opts env e c = Some c' \<Longrightarrow> once_inv c'" for e c c'
      by (rule once_step)
  qed (simp add: once_inv_def)
  then show ?thesis by (simp add: once_inv_def)
qed

theorem crawlSite_fetch_at_most_once_witness:
  "crawlSite example_opts_deep example_env example_events_deep = Some (Inr example_state_deep) \<and>
   distinct (map url (dispatched example_state_deep)) \<and>
   map url (dispatched example_state_deep) =
     [''http://a.com/'', ''http://a.com/x/'', ''http://a.com/b'', ''http://a.com/d'']"
  using crawlSite_fetch_at_most_once [OF example_run_deep] example_run_deep
  by (simp add: example_state_deep_def)

lemma task_origin_mono: "task_origin s D t \<Longrightarrow> task_origin s (D @ E) t"
  by (auto simp: task_origin_def list_ex_iff)

lemma depth_start:
  assumes "depth_inv opts s c" and "task_origin s (dispatched c) t"
  shows "depth_inv opts s (crawlPage_start opts env t c)"
  using assms
  by (auto simp: depth_inv_def crawlPage_start_def Let_def list_all_iff intro: task_origin_mono)

lemma queue_finish:
  "\<exists>us. queue (crawlPage_finish env t r c) =
          queue c @ map (\<lambda>next. \<lparr>url = next, depth = depth t + 1\<rparr>) us"
  by (cases r; force simp: crawlPage_finish_def split: sum.splits)

lemma batch_finish [simp]: "batch (crawlPage_finish env t r c) = batch c"
  by (simp add: crawlPage_finish_def split: page_result.splits sum.splits)

lemma inflight_finish [simp]: "inflight (crawlPage_finish env t r c) = inflight c"
  by (simp add: crawlPage_finish_def split: page_result.splits sum.splits)

lemma depth_finish:
  assumes "depth_inv opts s c" and "t \<in> set (dispatched c)"
  shows "depth_inv opts s (crawlPage_finish env t r c)"
proof -
  from queue_finish obtain us where
    q: "queue (crawlPage_finish env t r c) =
          queue c @ map (\<lambda>next. \<lparr>url = next, depth = depth t + 1\<rparr>) us" by blast
  from assms(2) have "task_origin s (dispatched c) \<lparr>url = x, depth = depth t + 1\<rparr>" for x
    by (auto simp: task_origin_def list_ex_iff)
  with assms(1) show ?thesis
    by (auto simp: depth_inv_def q list_all_iff)
qed

lemma depth_step:
  assumes "depth_inv opts s c" and "step opts env e c = Some c'"
  shows "depth_inv opts s c'"
proof (cases e)
  case NextBatch
  with assms(2) have c': "c' = c\<lparr>batch := take (concurrency opts) (queue c),
                       queue := drop (concurrency opts) (queue c)\<rparr>" and "batch c = []"
    by (auto simp: step_def batch_done_def split: if_splits)
  have "set (take n xs) \<subseteq> set xs" "set (drop n xs) \<subseteq> set xs" for n and xs :: "task list"
    by (auto dest: in_set_takeD in_set_dropD)
  with assms(1) show ?thesis
    unfolding c' depth_inv_def list_all_iff by (simp; blast)
next
  case Start
  with assms(2) obtain t ts where b: "batch c = t # ts"
    and c': "c' = crawlPage_start opts env t (c\<lparr>batch := ts\<rparr>)"
    by (auto simp: step_def split: list.splits)
  from assms(1) b have "depth_inv opts s (c\<lparr>batch := ts\<rparr>)" "task_origin s (dispatched (c\<lparr>batch := ts\<rparr>)) t"
    by (auto simp: depth_inv_def)
  then show ?thesis unfolding c' by (rule depth_start)
next
  case (Finish i r)
  with assms(2) have i: "i < length (inflight c)" and c': "c' = crawlPage_finish env (inflight c ! i) r
                       (c\<lparr>inflight := take i (inflight c) @ drop (Suc i) (inflight c)\<rparr>)"
    by (auto simp: step_def split: if_splits)
  have sub: "set (take i xs @ drop (Suc i) xs) \<subseteq> set xs" for xs :: "task list"
    by (auto dest: in_set_takeD in_set_dropD)
  from assms(1) sub[of "inflight c"]
  have "depth_inv opts s (c\<lparr>inflight := take i (inflight c) @ drop (Suc i) (inflight c)\<rparr>)"
    unfolding depth_inv_def list_all_iff by (simp; blast)
  moreover from assms(1) i have "inflight c ! i \<in> set (dispatched (c\<lparr>inflight := take i (inflight c) @ drop (Suc i) (inflight c)\<rparr>))"
    by (auto simp: depth_inv_def)
  ultimately show ?thesis unfolding c' by (rule depth_finish)
next
  case Return
  with assms show ?thesis
    by (auto simp: step_def depth_inv_def split: if_splits)
qed

text \<open>
  Claim C9. In every state that a run of \<^verbatim>\<open>crawlSite\<close> reaches, every task that was dispatched
  to a page fetch has a depth strictly below \<open>maxDepth\<close>; every pending task is the seed at
  depth 0 or lies one level below a fetched page, since link extraction appends the
  discovered URLs at the depth of the page plus one; and with \<open>maxDepth = 1\<close> no page other
  than the seed is ever fetched, so a page that is two links away from the seed is not.
\<close>

theorem crawlSite_depth_bound:
  assumes "crawlSite opts env es = Some (Inr c)"
  shows "(\<forall>t\<in>set (dispatched c). depth t < maxDepth opts) \<and>
         (\<forall>t\<in>set (queue c @ batch c @ inflight c).
            (depth t = 0 \<and> normalizeUrl (collate env) (baseUrl opts) = Inr (url t)) \<or>
            (\<exists>p\<in>set (dispatched c). depth t = depth p + 1)) \<and>
         (\<forall>t r c0. \<exists>us. queue (crawlPage_finish env t r c0) =
                 queue c0 @ map (\<lambda>next. \<lparr>url = next, depth = depth t + 1\<rparr>) us) \<and>
         (maxDepth opts = 1 \<longrightarrow>
            (\<forall>t\<in>set (dispatched c). normalizeUrl (collate env) (baseUrl opts) = Inr (url t)))"
proof -
  from assms obtain s where s: "normalizeUrl (collate env) (baseUrl opts) = Inr s"
    by (auto simp: crawlSite_def crawlSite_init_def split: sum.splits)
  have inv: "depth_inv opts s c"
    using assms
  proof (rule crawlSite_invariant)
    show "depth_inv opts s c \<Longrightarrow> step opts env e c = Some c' \<Longrightarrow> depth_inv opts s c'" for e c c'
      by (rule depth_step)
  next
    fix s' assume "normalizeUrl (collate env) (baseUrl opts) = Inr s'"
    with s have "s' = s" by simp
    then show "depth_inv opts s \<lparr>visited = [], queue = [\<lparr>url = s', depth = 0\<rparr>], batch = [], inflight = [],
              dispatched = [], status = Running\<rparr>"
      by (simp add: depth_inv_def task_origin_def)
  qed
  have 1: "\<forall>t\<in>set (dispatched c). depth t < maxDepth opts"
    using inv by (simp add: depth_inv_def list_all_iff)
  have 2: "\<forall>t\<in>set (queue c @ batch c @ inflight c).
            (depth t = 0 \<and> normalizeUrl (collate env) (baseUrl opts) = Inr (url t)) \<or>
            (\<exists>p\<in>set (dispatched c). depth t = depth p + 1)"
    using inv s by (auto simp: depth_inv_def list_all_iff task_origin_def list_ex_iff)
  have 3: "maxDepth opts = 1 \<longrightarrow>
            (\<forall>t\<in>set (dispatched c). normalizeUrl (collate env) (baseUrl opts) = Inr (url t))"
  proof (intro impI ballI)
    fix t assume m: "maxDepth opts = 1" and t: "t \<in> set (dispatched c)"
    with 1 have "depth t = 0" by auto
    moreover from inv t have "task_origin s (dispatched c) t"
      by (simp add: depth_inv_def list_all_iff)
    ultimately show "normalizeUrl (collate env) (baseUrl opts) = Inr (url t)"
      using s by (auto simp: task_origin_def list_ex_iff)
  qed
  from 1 2 3 queue_finish show ?thesis by blast
qed

theorem crawlSite_depth_bound_witness:
  "crawlSite example_opts example_env example_events = Some (Inr example_final) \<and>
   maxDepth example_opts = 1 \<and>
   dispatched example_final = [\<lparr>url = ''http://a.com/'', depth = 0\<rparr>] \<and>
   depth \<lparr>url = ''http://a.com/'', depth = 0\<rparr> < maxDepth example_opts \<and>
   normalizeUrl (collate example_env) (baseUrl example_opts) = Inr ''http://a.com/''"
  using crawlSite_depth_bound [OF example_run] example_run
  by (simp add: example_final_def example_opts_def)

subsection \<open>Skipped tasks\<close>

text \<open>
  Claim C3, amended. For every crawl task whose URL is not yet visited, if the URL fails
  \<open>isLikelyHtmlPage\<close>, or \<open>respectRobots\<close> is set and the robots policy disallows the URL, or
  the visited budget is already exhausted, then \<^verbatim>\<open>crawlPage\<close> returns before line 51: the task
  is not fetched and its URL is \<^emph>\<open>not\<close> marked visited; the state stays as it is.
\<close>

theorem crawlPage_skip_leaves_unvisited:
  assumes "url t \<notin> set (visited c)"
    and "\<not> isLikelyHtmlPage (url t) \<or> (respectRobots opts \<and> \<not> robots_allows env (url t)) \<or>
         maxPages opts \<le> length (visited c)"
  shows "crawlPage_start opts env t c = c \<and>
         url t \<notin> set (visited (crawlPage_start opts env t c)) \<and>
         dispatched (crawlPage_start opts env t c) = dispatched c \<and>
         step opts env Start (c\<lparr>batch := t # ts\<rparr>) = Some (c\<lparr>batch := ts\<rparr>)"
proof -
  from assms(2) have 1: "crawlPage_start opts env t c = c"
    by (auto simp: crawlPage_start_def)
  from assms have 2: "crawlPage_start opts env t (c\<lparr>batch := ts\<rparr>) = c\<lparr>batch := ts\<rparr>"
    by (auto simp: crawlPage_start_def)
  from 1 2 assms(1) show ?thesis by (simp add: step_def)
qed

lemma example_private_skipped:
  "url example_task_private \<notin> set (visited example_state_seeded)"
  "respectRobots example_opts" "\<not> robots_allows example_env (url example_task_private)"
  by (simp_all add: example_task_private_def example_state_seeded_def example_opts_def
        example_env_def)

theorem crawlPage_skip_leaves_unvisited_witness:
  "url example_task_private \<notin> set (visited example_state_seeded) \<and>
   respectRobots example_opts \<and> \<not> robots_allows example_env (url example_task_private) \<and>
   crawlPage_start example_opts example_env example_task_private example_state_seeded =
     example_state_seeded"
  using crawlPage_skip_leaves_unvisited
          [of example_task_private example_state_seeded example_opts example_env]
        example_private_skipped
  by blast

theorem crawlPage_skip_marks_visited_counterexample:
  "url example_task_private \<notin> set (visited example_state_seeded) \<and>
   respectRobots example_opts \<and> \<not> robots_allows example_env (url example_task_private) \<and>
   url example_task_private \<notin>
     set (visited (crawlPage_start example_opts example_env example_task_private
            example_state_seeded)) \<and>
   url example_task_pdf \<notin> set (visited example_state_seeded) \<and>
   \<not> isLikelyHtmlPage (url example_task_pdf) \<and>
   url example_task_pdf \<notin>
     set (visited (crawlPage_start example_opts example_env example_task_pdf
            example_state_seeded)) \<and>
   crawlSite example_opts example_env example_events = Some (Inr example_final) \<and>
   status example_final = Returned [''http://a.com/'', ''http://a.com/x/'', ''http://a.com/b''] \<and>
   ''http://a.com/private'' \<notin> set [''http://a.com/'', ''http://a.com/x/'', ''http://a.com/b''] \<and>
   ''http://a.com/d'' \<notin> set [''http://a.com/'', ''http://a.com/x/'', ''http://a.com/b'']"
proof -
  have a: "url example_task_private \<notin>
     set (visited (crawlPage_start example_opts example_env example_task_private
            example_state_seeded))" by code_simp
  have b: "url example_task_pdf \<notin> set (visited example_state_seeded)" by code_simp
  have c: "\<not> isLikelyHtmlPage (url example_task_pdf)" by code_simp
  have d: "url example_task_pdf \<notin>
     set (visited (crawlPage_start example_opts example_env example_task_pdf
            example_state_seeded))" by code_simp
  have e: "status example_final = Returned [''http://a.com/'', ''http://a.com/x/'', ''http://a.com/b'']"
    by (simp add: example_final_def)
  have f: "''http://a.com/private'' \<notin> set [''http://a.com/'', ''http://a.com/x/'', ''http://a.com/b'']"
    "''http://a.com/d'' \<notin> set [''http://a.com/'', ''http://a.com/x/'', ''http://a.com/b'']"
    by simp_all
  from example_private_skipped a b c d example_run e f show ?thesis by blast
qed

subsection \<open>Hosts of the crawled URLs\<close>

lemma isSameHost_parsed:
  assumes "new_URL a = Some ua" and "new_URL b = Some ub"
  shows "isSameHost a b =
           Inr (is_local ua \<and> is_local ub \<or> host ua = host ub \<and> protocol ua = protocol ub)"
  using assms by (simp add: isSameHost_def Let_def is_local_def)

lemma isSameHost_parses:
  assumes "isSameHost a b = Inr r"
  shows "\<exists>ua ub. new_URL a = Some ua \<and> new_URL b = Some ub"
proof (cases "new_URL a")
  case None
  with assms show ?thesis by (simp add: isSameHost_def)
next
  case (Some ua)
  with assms show ?thesis by (cases "new_URL b") (simp_all add: isSameHost_def)
qed

lemma split_host:
  assumes "valid_hostname (hostname u)"
  shows "split_first CHR '':'' (host u) =
           (hostname u, if port u = [] then None else Some (port u))"
proof (cases "port u = []")
  case True
  with split_first_none[OF hostname_no_sep(4)[OF assms]] show ?thesis by (simp add: host_def)
next
  case False
  with split_first_some[OF hostname_no_sep(4)[OF assms], of "port u"] show ?thesis
    by (simp add: host_def)
qed

lemma host_eq_hostname:
  assumes "wf_url a" and "wf_url b" and "host a = host b"
  shows "hostname a = hostname b"
proof -
  from assms(1,2) have va: "valid_hostname (hostname a)" and vb: "valid_hostname (hostname b)"
    by (simp_all add: wf_url_def)
  from assms(3) have "fst (split_first CHR '':'' (host a)) = fst (split_first CHR '':'' (host b))"
    by (rule arg_cong)
  then show ?thesis by (simp only: split_host[OF va] split_host[OF vb] fst_conv)
qed

lemma host_eq_local:
  assumes "wf_url a" and "wf_url b" and "host a = host b"
  shows "is_local a = is_local b"
  using host_eq_hostname[OF assms] by (simp only: is_local_def)

lemma isSameHost_refl: "new_URL a = Some ua \<Longrightarrow> isSameHost a a = Inr True"
  by (simp add: isSameHost_parsed)

lemma isSameHost_trans:
  assumes "isSameHost a b = Inr True" and "isSameHost b c = Inr True"
  shows "isSameHost a c = Inr True"
proof -
  from isSameHost_parses[OF assms(1)] obtain ua ub where
    ua: "new_URL a = Some ua" and ub: "new_URL b = Some ub" by blast
  from isSameHost_parses[OF assms(2)] obtain uc where uc: "new_URL c = Some uc" by blast
  note wa = new_URL_wf[OF ua] and wb = new_URL_wf[OF ub] and wc = new_URL_wf[OF uc]
  from assms(1) have ab: "is_local ua \<and> is_local ub \<or> host ua = host ub \<and> protocol ua = protocol ub"
    by (simp only: isSameHost_parsed[OF ua ub] sum.inject simp_thms)
  from assms(2) have bc: "is_local ub \<and> is_local uc \<or> host ub = host uc \<and> protocol ub = protocol uc"
    by (simp only: isSameHost_parsed[OF ub uc] sum.inject simp_thms)
  have "is_local ua \<and> is_local uc \<or> host ua = host uc \<and> protocol ua = protocol uc"
    using ab bc host_eq_local[OF wa wb] host_eq_local[OF wb wc] by metis
  then show ?thesis by (simp only: isSameHost_parsed[OF ua uc] simp_thms)
qed

lemma isLikelyHtmlPage_parses: "isLikelyHtmlPage x \<Longrightarrow> \<exists>u. new_URL x = Some u"
  by (cases "new_URL x") (simp_all add: isLikelyHtmlPage_def)

lemma try_map_results:
  "try_map f xs = Inr ys \<Longrightarrow> y \<in> set ys \<Longrightarrow> \<exists>x. f x = Inr y"
proof (induction xs arbitrary: ys)
  case Nil
  then show ?case by simp
next
  case (Cons x xs)
  then show ?case by (auto split: sum.splits)
qed

lemma try_filter_results:
  "try_filter p xs = Inr ys \<Longrightarrow> y \<in> set ys \<Longrightarrow> y \<in> set xs \<and> p y = Inr True"
proof (induction xs arbitrary: ys)
  case Nil
  then show ?case by simp
next
  case (Cons x xs)
  then show ?case by (auto split: sum.splits if_splits)
qed

lemma candidates_results:
  assumes "candidates env u anchors = Inr cands" and "x \<in> set cands"
  shows "(\<exists>raw. normalizeUrl (collate env) raw = Inr x) \<and> isSameHost u x = Inr True \<and>
         isLikelyHtmlPage x"
proof -
  from assms(1) obtain us vs where
    m: "try_map (normalizeUrl (collate env))
          (filter (\<lambda>u. u \<noteq> []) (List.map_filter (toAbsoluteUrl env u) anchors)) = Inr us"
    and f: "try_filter (isSameHost u) us = Inr vs" and c: "cands = filter isLikelyHtmlPage vs"
    by (auto simp: candidates_def split: sum.splits)
  from assms(2) c have xv: "x \<in> set vs" and h: "isLikelyHtmlPage x" by simp_all
  from try_filter_results[OF f xv] have xu: "x \<in> set us" and s: "isSameHost u x = Inr True"
    by simp_all
  from try_map_results[OF m xu] h s show ?thesis by blast
qed

lemma link_ok_candidate:
  assumes "link_ok k s u" and "\<exists>raw. normalizeUrl k raw = Inr x" and "isSameHost u x = Inr True"
  shows "link_ok k s x"
proof -
  from assms(1) have "u = s \<or> isSameHost s u = Inr True" by (simp add: link_ok_def)
  then have "isSameHost s x = Inr True"
  proof
    assume "u = s" with assms(3) show ?thesis by simp
  next
    assume "isSameHost s u = Inr True"
    from this assms(3) show ?thesis by (rule isSameHost_trans)
  qed
  with assms(2) show ?thesis by (simp add: link_ok_def)
qed

lemma host_start:
  assumes "host_inv k s c" and "link_ok k s (url t)"
  shows "host_inv k s (crawlPage_start opts env t c)"
  using assms
  by (auto simp: host_inv_def crawlPage_start_def Let_def set_add_def list_all_iff)

lemma host_finish:
  assumes "host_inv (collate env) s c" and "link_ok (collate env) s (url t)"
  shows "host_inv (collate env) s (crawlPage_finish env t r c)"
proof (cases r)
  case ContextFailed
  with assms(1) show ?thesis
    by (auto simp: host_inv_def crawlPage_finish_def split: run_status.splits)
next
  case PageFailed
  with assms(1) show ?thesis by (simp add: crawlPage_finish_def)
next
  case (Anchors anchors)
  show ?thesis
  proof (cases "candidates env (url t) anchors")
    case (Inl e)
    with Anchors assms(1) show ?thesis by (simp add: crawlPage_finish_def)
  next
    case (Inr cands)
    have "link_ok (collate env) s x" if "x \<in> set cands" for x
      using candidates_results[OF Inr that] link_ok_candidate[OF assms(2)] by blast
    with assms(1) Anchors Inr show ?thesis
      by (auto simp: host_inv_def crawlPage_finish_def list_all_iff)
  qed
qed

lemma host_step:
  assumes "host_inv (collate env) s c" and "step opts env e c = Some c'"
  shows "host_inv (collate env) s c'"
proof (cases e)
  case NextBatch
  with assms(2) have c': "c' = c\<lparr>batch := take (concurrency opts) (queue c),
                       queue := drop (concurrency opts) (queue c)\<rparr>" and "batch c = []"
    by (auto simp: step_def batch_done_def split: if_splits)
  have "set (take n xs) \<subseteq> set xs" "set (drop n xs) \<subseteq> set xs" for n and xs :: "task list"
    by (auto dest: in_set_takeD in_set_dropD)
  with assms(1) show ?thesis
    unfolding c' host_inv_def list_all_iff by (simp; blast)
next
  case Start
  with assms(2) obtain t ts where b: "batch c = t # ts"
    and c': "c' = crawlPage_start opts env t (c\<lparr>batch := ts\<rparr>)"
    by (auto simp: step_def split: list.splits)
  from assms(1) b have "host_inv (collate env) s (c\<lparr>batch := ts\<rparr>)" "link_ok (collate env) s (url t)"
    by (auto simp: host_inv_def)
  then show ?thesis unfolding c' by (rule host_start)
next
  case (Finish i r)
  with assms(2) have i: "i < length (inflight c)" and c': "c' = crawlPage_finish env (inflight c ! i) r
                       (c\<lparr>inflight := take i (inflight c) @ drop (Suc i) (inflight c)\<rparr>)"
    by (auto simp: step_def split: if_splits)
  have sub: "set (take i xs @ drop (Suc i) xs) \<subseteq> set xs" for xs :: "task list"
    by (auto dest: in_set_takeD in_set_dropD)
  from assms(1) sub[of "inflight c"]
  have "host_inv (collate env) s (c\<lparr>inflight := take i (inflight c) @ drop (Suc i) (inflight c)\<rparr>)"
    unfolding host_inv_def list_all_iff by (simp; blast)
  moreover from assms(1) i have "link_ok (collate env) s (url (inflight c ! i))"
    by (auto simp: host_inv_def list_all_iff)
  ultimately show ?thesis unfolding c' by (rule host_finish)
next
  case Return
  with assms show ?thesis
    by (auto simp: step_def host_inv_def split: if_splits)
qed

text \<open>
  Claim C10, amended. Every string in the list returned by \<^verbatim>\<open>crawlSite\<close> is a result of
  \<open>normalizeUrl\<close> (though not always a fixed point of it), passes \<open>isLikelyHtmlPage\<close> and
  satisfies \<open>isSameHost\<close> with the normalized seed URL, for every crawl configuration and
  every behaviour of the page fetch.
\<close>

theorem crawlSite_output_normalized_same_host:
  assumes "crawlSite opts env es = Some (Inr c)" and "status c = Returned xs" and "x \<in> set xs"
  shows "\<exists>s. normalizeUrl (collate env) (baseUrl opts) = Inr s \<and> isSameHost s x = Inr True \<and>
             isLikelyHtmlPage x \<and> (\<exists>raw. normalizeUrl (collate env) raw = Inr x)"
proof -
  from assms(1) obtain s where s: "normalizeUrl (collate env) (baseUrl opts) = Inr s"
    by (auto simp: crawlSite_def crawlSite_init_def split: sum.splits)
  have inv: "host_inv (collate env) s c"
    using assms(1)
  proof (rule crawlSite_invariant)
    show "host_inv (collate env) s c \<Longrightarrow> step opts env e c = Some c' \<Longrightarrow> host_inv (collate env) s c'"
      for e c c' by (rule host_step)
  next
    fix s' assume "normalizeUrl (collate env) (baseUrl opts) = Inr s'"
    with s have "s' = s" by simp
    with s show "host_inv (collate env) s \<lparr>visited = [], queue = [\<lparr>url = s', depth = 0\<rparr>], batch = [],
              inflight = [], dispatched = [], status = Running\<rparr>"
      by (auto simp: host_inv_def link_ok_def)
  qed
  with assms(2,3) have l: "link_ok (collate env) s x" and h: "isLikelyHtmlPage x"
    by (auto simp: host_inv_def list_all_iff)
  from isLikelyHtmlPage_parses[OF h] obtain u where "new_URL x = Some u" by blast
  then have "isSameHost x x = Inr True" by (rule isSameHost_refl)
  with l have "isSameHost s x = Inr True" by (auto simp: link_ok_def)
  with s l h show ?thesis by (auto simp: link_ok_def)
qed

theorem crawlSite_output_normalized_same_host_witness:
  "crawlSite example_opts example_env example_events = Some (Inr example_final) \<and>
   status example_final = Returned [''http://a.com/'', ''http://a.com/x/'', ''http://a.com/b''] \<and>
   (\<exists>s. normalizeUrl (collate example_env) (baseUrl example_opts) = Inr s \<and>
        isSameHost s ''http://a.com/x/'' = Inr True \<and> isLikelyHtmlPage ''http://a.com/x/'' \<and>
        (\<exists>raw. normalizeUrl (collate example_env) raw = Inr ''http://a.com/x/''))"
proof -
  have e: "status example_final = Returned [''http://a.com/'', ''http://a.com/x/'', ''http://a.com/b'']"
    by (simp add: example_final_def)
  have m: "''http://a.com/x/'' \<in> set [''http://a.com/'', ''http://a.com/x/'', ''http://a.com/b'']"
    by simp
  from crawlSite_output_normalized_same_host [OF example_run e m] example_run e
  show ?thesis by blast
qed

theorem crawlSite_output_fixed_point_counterexample:
  "crawlSite example_opts example_env example_events = Some (Inr example_final) \<and>
   status example_final = Returned [''http://a.com/'', ''http://a.com/x/'', ''http://a.com/b''] \<and>
   normalizeUrl (collate example_env) ''http://a.com/x/'' = Inr ''http://a.com/x'' \<and>
   ''http://a.com/x'' \<noteq> ''http://a.com/x/''"
proof -
  have e: "status example_final = Returned [''http://a.com/'', ''http://a.com/x/'', ''http://a.com/b'']"
    by (simp add: example_final_def)
  have n: "normalizeUrl (collate example_env) ''http://a.com/x/'' = Inr ''http://a.com/x''"
    by code_simp
  have d: "''http://a.com/x'' \<noteq> ''http://a.com/x/''" by simp
  from example_run e n d show ?thesis by blast
qed

section \<open>The sitemap fetch\<close>

declare fetchXml_loop.simps [simp del]



lemma fetchXml_loop_unfold:
  assumes "attempt \<le> maxAttempts"
  shows "fetchXml_loop env u attempt le st =
     (case http_get env (requests st) u of
        Throws \<Rightarrow>
          (if attempt < maxAttempts
           then fetchXml_loop env u (attempt + 1) (Some NetworkError)
                  (st\<lparr>requests := requests st + 1,
                      io_log := io_log st @ [Get u, Sleep (backoffMs attempt)]\<rparr>)
           else fetchXml_loop env u (attempt + 1) (Some NetworkError)
                  (st\<lparr>requests := requests st + 1, io_log := io_log st @ [Get u]\<rparr>))
      | Response status' ct ra body \<Rightarrow>
          if 200 \<le> status' \<and> status' < 300 then
            (if \<not> looksXml body \<and>
                \<not> (str_includes (toLowerCase ct) ''xml'' \<or>
                   str_includes (toLowerCase ct) ''text/plain'')
             then (if attempt < maxAttempts
                   then fetchXml_loop env u (attempt + 1) (Some NotXml)
                          (st\<lparr>requests := requests st + 1,
                              io_log := io_log st @ [Get u, Sleep (backoffMs attempt)]\<rparr>)
                   else fetchXml_loop env u (attempt + 1) (Some NotXml)
                          (st\<lparr>requests := requests st + 1, io_log := io_log st @ [Get u]\<rparr>))
             else (Inr body, st\<lparr>requests := requests st + 1, io_log := io_log st @ [Get u]\<rparr>))
          else if status' = 429 \<or> status' = 503 then
            fetchXml_loop env u (attempt + 1) le
              (st\<lparr>requests := requests st + 1,
                  io_log := io_log st @
                    [Get u, Sleep (case parseRetryAfterMs env (requests st) ra of
                                     Some ms \<Rightarrow> ms | None \<Rightarrow> backoffMs attempt)]\<rparr>)
          else
            (if attempt < maxAttempts
             then fetchXml_loop env u (attempt + 1) (Some (HttpStatusError status'))
                    (st\<lparr>requests := requests st + 1,
                        io_log := io_log st @ [Get u, Sleep (backoffMs attempt)]\<rparr>)
             else fetchXml_loop env u (attempt + 1) (Some (HttpStatusError status'))
                    (st\<lparr>requests := requests st + 1, io_log := io_log st @ [Get u]\<rparr>)))"
proof -
  from assms have na: "\<not> maxAttempts < attempt" by simp
  show ?thesis
  proof (cases "http_get env (requests st) u")
    case Throws
    then show ?thesis by (subst fetchXml_loop.simps) (simp add: na Let_def)
  next
    case (Response status' ct ra body)
    then show ?thesis by (subst fetchXml_loop.simps) (simp add: na Let_def)
  qed
qed








text \<open>
  Fuel only bounds the nesting: a call that returns with some fuel returns the same result
  and the same network log with any larger amount.
\<close>

lemma parseSitemapUrls_fuel_mono:
  "parseSitemapUrls fuel env u base st = Some r \<Longrightarrow>
     parseSitemapUrls (fuel + k) env u base st = Some r"
  "sitemapindex_loop fuel env base bu items urls st = Some r \<Longrightarrow>
     sitemapindex_loop (fuel + k) env base bu items urls st = Some r"
proof (induction fuel env u base st and fuel env base bu items urls st
       arbitrary: r and r rule: parseSitemapUrls_sitemapindex_loop.induct)
  case (1 env sitemapUrl base st)
  then show ?case by simp
next
  case (2 fuel env sitemapUrl base st)
  obtain x y where f: "fetchXml env sitemapUrl st = (x, y)" by (cases "fetchXml env sitemapUrl st")
  show ?case
  proof (cases x)
    case (Inl e)
    with "2.prems" f show ?thesis by simp
  next
    case (Inr b)
    show ?thesis
    proof (cases "parseStringPromise env b")
      case (XmlDoc d)
      show ?thesis
      proof (cases "new_URL base")
        case None
        with "2.prems" f Inr XmlDoc show ?thesis by simp
      next
        case (Some bu)
        show ?thesis
        proof (cases "urlset_loop env base bu (urlset_url d) []")
          case (Inl e)
          with "2.prems" f Inr XmlDoc Some show ?thesis by simp
        next
          case inr: (Inr us)
          from "2.prems" f Inr XmlDoc Some inr
          have "sitemapindex_loop fuel env base bu (sitemapindex_sitemap d) us y = Some r"
            by simp
          from "2.IH"[OF f[symmetric] Inr XmlDoc Some inr this]
          show ?thesis using f Inr XmlDoc Some inr by simp
        qed
      qed
    qed (use "2.prems" f Inr in simp_all)
  qed
next
  case (3 fuel env base baseUrl' urls st)
  then show ?case by simp
next
  case (4 fuel env base baseUrl' loc items urls st)
  show ?case
  proof (cases "loc = []")
    case True
    with "4.prems" "4.IH"(1) show ?thesis by simp
  next
    case ne: False
    show ?thesis
    proof (cases "resolve_URL env loc base")
      case None
      with "4.prems" "4.IH"(2) ne show ?thesis by simp
    next
      case (Some a)
      show ?thesis
      proof (cases "a = []")
        case True
        with "4.prems" "4.IH"(3) ne Some show ?thesis by simp
      next
        case an: False
        let ?n = "parseSitemapUrls fuel env (rewriteToBaseOriginIfLocal baseUrl' a) base st"
        from "4.prems" ne Some an obtain x y where n: "?n = Some (x, y)"
          by (cases ?n) auto
        from "4.IH"(4)[OF ne Some an n]
        have n': "parseSitemapUrls (fuel + k) env (rewriteToBaseOriginIfLocal baseUrl' a) base st
                  = Some (x, y)" .
        show ?thesis
        proof (cases x)
          case (Inl e)
          with "4.prems" ne Some an n n' show ?thesis by auto
        next
          case (Inr b)
          from "4.prems" ne Some an n Inr
          have "sitemapindex_loop fuel env base baseUrl' items (foldl set_add urls b) y = Some r"
            by simp
          from "4.IH"(5)[OF ne Some an n refl Inr this]
          show ?thesis using ne Some an n' Inr by simp
        qed
      qed
    qed
  qed
qed



subsection \<open>A sitemap index that names itself\<close>

lemma cyclic_content_type: "str_includes (toLowerCase ''application/xml'') ''xml''"
  by code_simp

lemma cyclic_fetch:
  "fetchXml cyclic_env u st =
     (Inr cyclic_body, st\<lparr>requests := requests st + 1, io_log := io_log st @ [Get u]\<rparr>)"
proof -
  have a: "(1::nat) \<le> maxAttempts" by (simp add: maxAttempts_def)
  have g: "http_get cyclic_env (requests st) u = Response 200 ''application/xml'' [] cyclic_body"
    by (simp add: cyclic_env_def)
  show ?thesis
    unfolding fetchXml_def fetchXml_loop_unfold[OF a] g
    by (simp add: cyclic_content_type)
qed

lemma cyclic_parse:
  "parseStringPromise cyclic_env cyclic_body =
     XmlDoc \<lparr>urlset_url = [], sitemapindex_sitemap = [''http://a.com/sitemap.xml'']\<rparr>"
  by (simp add: cyclic_env_def)

lemma cyclic_base:
  "new_URL ''http://a.com'' =
     Some \<lparr>protocol = ''http:'', hostname = ''a.com'', port = [], pathname = ''/'',
           query = None, fragment = None\<rparr>"
  by code_simp

lemma cyclic_resolve:
  "resolve_URL cyclic_env ''http://a.com/sitemap.xml'' ''http://a.com'' =
     Some ''http://a.com/sitemap.xml''"
  by code_simp

lemma cyclic_rewrite:
  "rewriteToBaseOriginIfLocal
     \<lparr>protocol = ''http:'', hostname = ''a.com'', port = [], pathname = ''/'',
      query = None, fragment = None\<rparr> ''http://a.com/sitemap.xml'' = ''http://a.com/sitemap.xml''"
  by code_simp

text \<open>
  Claim C4. There is an input on which \<^verbatim>\<open>parseSitemapUrls\<close> does not return: when the server
  answers \<^verbatim>\<open>http://a.com/sitemap.xml\<close> with a sitemap index whose only entry is that same URL,
  no amount of fuel lets the call return, from any state of the network log; each nested
  call fetches the document again and opens the next one.
\<close>

theorem parseSitemapUrls_cycle_never_returns:
  "parseSitemapUrls fuel cyclic_env ''http://a.com/sitemap.xml'' ''http://a.com'' st = None"
proof (induction fuel arbitrary: st)
  case 0
  show ?case by simp
next
  case (Suc fuel)
  have ne: "''http://a.com/sitemap.xml'' \<noteq> []" by simp
  show ?case
    by (simp only: parseSitemapUrls.simps sitemapindex_loop.simps cyclic_fetch prod.case sum.case
          cyclic_parse xml_result.case cyclic_base option.case xml_doc.simps urlset_loop.simps
          ne if_False cyclic_resolve cyclic_rewrite Suc.IH)
qed

theorem parseSitemapUrls_cycle_never_returns_witness:
  "parseSitemapUrls 3 cyclic_env ''http://a.com/sitemap.xml'' ''http://a.com'' fetch_start = None \<and>
   parseSitemapUrls 1 busy_env ''http://a.com/sitemap.xml'' ''http://a.com'' fetch_start =
     Some (Inr [], busy_end)"
proof -
  have "parseSitemapUrls 1 busy_env ''http://a.com/sitemap.xml'' ''http://a.com'' fetch_start =
     Some (Inr [], busy_end)" by code_simp
  with parseSitemapUrls_cycle_never_returns [of 3 fetch_start] show ?thesis by blast
qed

end
